theory Spec2Isabelle
  imports Complex_Main "HOL-Library.Product_Lexorder"
begin

section \<open>Word embeddings of \<open>03A_NLP.ipynb\<close>: floats\<close>

text \<open>
  The notebook keeps three module-level values: the list \<open>english_words\<close>, the
  matrix \<open>normalized_embeddings\<close> (one row per word) and the dictionary \<open>index\<close>
  from a word to its row.  Matrix entries are numpy floats.  A float is either finite,
  and then it is a real number, or one of the three special values that numpy's
  arithmetic produces instead of raising.  Not every real number is a float: the result
  of an operation is rounded, and how is left to the library (see \<open>numpy\<close> below).  The
  two zeros of the float format are not told apart.
\<close>

datatype fl = Fin real | PInf | NInf | NaN

text \<open>A nonzero finite value divided by zero: the sign decides; \<open>0 / 0\<close> is NaN.\<close>

definition signed_inf :: "real \<Rightarrow> fl" where
  "signed_inf a = (if a = 0 then NaN else if 0 < a then PInf else NInf)"

fun fneg :: "fl \<Rightarrow> fl" where
  "fneg (Fin a) = Fin (- a)"
| "fneg PInf = NInf"
| "fneg NInf = PInf"
| "fneg NaN = NaN"

text \<open>
  The elementwise operations on floats, given the rounding \<open>rnd\<close> of an exact result to
  a float: the exact result, rounded; the special values follow the float standard.
\<close>

fun fadd :: "(real \<Rightarrow> fl) \<Rightarrow> fl \<Rightarrow> fl \<Rightarrow> fl" where
  "fadd rnd (Fin a) (Fin b) = rnd (a + b)"
| "fadd rnd (Fin a) PInf = PInf"
| "fadd rnd (Fin a) NInf = NInf"
| "fadd rnd PInf (Fin b) = PInf"
| "fadd rnd PInf PInf = PInf"
| "fadd rnd PInf NInf = NaN"
| "fadd rnd NInf (Fin b) = NInf"
| "fadd rnd NInf PInf = NaN"
| "fadd rnd NInf NInf = NInf"
| "fadd rnd NaN y = NaN"
| "fadd rnd x NaN = NaN"

definition fsub :: "(real \<Rightarrow> fl) \<Rightarrow> fl \<Rightarrow> fl \<Rightarrow> fl" where
  "fsub rnd x y = fadd rnd x (fneg y)"

fun fmul :: "(real \<Rightarrow> fl) \<Rightarrow> fl \<Rightarrow> fl \<Rightarrow> fl" where
  "fmul rnd (Fin a) (Fin b) = rnd (a * b)"
| "fmul rnd (Fin a) PInf = signed_inf a"
| "fmul rnd (Fin a) NInf = signed_inf (- a)"
| "fmul rnd PInf (Fin b) = signed_inf b"
| "fmul rnd PInf PInf = PInf"
| "fmul rnd PInf NInf = NInf"
| "fmul rnd NInf (Fin b) = signed_inf (- b)"
| "fmul rnd NInf PInf = NInf"
| "fmul rnd NInf NInf = PInf"
| "fmul rnd NaN y = NaN"
| "fmul rnd x NaN = NaN"

text \<open>
  numpy's \<open>/\<close> on floats never raises: a zero divisor gives NaN for \<open>0 / 0\<close> and an
  infinity otherwise.
\<close>

fun true_divide :: "(real \<Rightarrow> fl) \<Rightarrow> fl \<Rightarrow> fl \<Rightarrow> fl" where
  "true_divide rnd (Fin a) (Fin b) = (if b = 0 then signed_inf a else rnd (a / b))"
| "true_divide rnd (Fin a) PInf = Fin 0"
| "true_divide rnd (Fin a) NInf = Fin 0"
| "true_divide rnd PInf (Fin b) = (if 0 \<le> b then PInf else NInf)"
| "true_divide rnd NInf (Fin b) = (if 0 \<le> b then NInf else PInf)"
| "true_divide rnd PInf PInf = NaN"
| "true_divide rnd PInf NInf = NaN"
| "true_divide rnd NInf PInf = NaN"
| "true_divide rnd NInf NInf = NaN"
| "true_divide rnd NaN y = NaN"
| "true_divide rnd x NaN = NaN"

text \<open>\<open>.astype('float32')\<close> of one entry.\<close>

fun astype_float32 :: "(real \<Rightarrow> fl) \<Rightarrow> fl \<Rightarrow> fl" where
  "astype_float32 rnd (Fin a) = rnd a"
| "astype_float32 rnd PInf = PInf"
| "astype_float32 rnd NInf = NInf"
| "astype_float32 rnd NaN = NaN"

text \<open>
  The order in which numpy sorts floats: \<open>-inf\<close>, the finite values in increasing
  order, \<open>+inf\<close>, and every NaN at the end.
\<close>

fun fl_key :: "fl \<Rightarrow> nat \<times> real" where
  "fl_key NInf = (0, 0)"
| "fl_key (Fin a) = (1, a)"
| "fl_key PInf = (2, 0)"
| "fl_key NaN = (3, 0)"

text \<open>The comparisons \<open>>\<close> and \<open>>=\<close> of two floats: false as soon as one side is NaN.\<close>

definition fl_gt :: "fl \<Rightarrow> fl \<Rightarrow> bool" where
  "fl_gt x y = (x \<noteq> NaN \<and> y \<noteq> NaN \<and> fl_key y < fl_key x)"

definition fl_ge :: "fl \<Rightarrow> fl \<Rightarrow> bool" where
  "fl_ge x y = (x \<noteq> NaN \<and> y \<noteq> NaN \<and> fl_key y \<le> fl_key x)"

section \<open>The library\<close>

text \<open>
  numpy is not part of the repository, and what its routines return depends on choices
  the notebook does not make: how a result is rounded to a float, in which order
  \<open>np.dot\<close> and \<open>np.linalg.norm\<close> add up their terms, and how \<open>np.argsort\<close> orders equal
  values (its default sort is not stable).  These routines are therefore parameters of
  the model:
  \<^item> \<open>round_float32\<close>: the float that an exact real result is rounded to;
  \<^item> \<open>np_dot\<close>: \<open>np.dot\<close> of two vectors;
  \<^item> \<open>np_dot_matrix\<close>: \<open>np.dot\<close> of a matrix (its rows) and a vector of matching length;
  \<^item> \<open>np_argsort\<close>: \<open>np.argsort\<close> of a vector;
  \<^item> \<open>np_norm\<close>: \<open>np.linalg.norm\<close> of one row.
\<close>

record numpy =
  round_float32 :: "real \<Rightarrow> fl"
  np_dot :: "fl list \<Rightarrow> fl list \<Rightarrow> fl"
  np_dot_matrix :: "fl list list \<Rightarrow> fl list \<Rightarrow> fl list"
  np_argsort :: "fl list \<Rightarrow> nat list"
  np_norm :: "fl list \<Rightarrow> fl"

text \<open>
  What the ranking relies on: the product of a matrix and a vector has one score per
  row, and \<open>np.argsort\<close> returns every position once, in ascending order of the values
  (in the order numpy sorts floats).  Nothing is said about equal values.
\<close>

definition ranking_ok :: "numpy \<Rightarrow> bool" where
  "ranking_ok L =
     ((\<forall>M v. length (np_dot_matrix L M v) = length M)
      \<and> (\<forall>xs. distinct (np_argsort L xs)
               \<and> set (np_argsort L xs) = {0..<length xs}
               \<and> sorted (map (\<lambda>i. fl_key (xs ! i)) (np_argsort L xs))))"

text \<open>
  What normalising a zero row relies on: zero is a float, and the norm of zeros is zero.
\<close>

definition zeros_ok :: "numpy \<Rightarrow> bool" where
  "zeros_ok L =
     (round_float32 L 0 = Fin 0
      \<and> (\<forall>r. (\<forall>x\<in>set r. x = Fin 0) \<longrightarrow> np_norm L r = Fin 0))"


text \<open>
  What a tolerance relies on.  A real number is in the normal range of float32 when it
  is zero or its magnitude lies between \<open>2^-126\<close> and \<open>2^127\<close>; rounding such a number
  has a relative error of at most \<open>u\<close> (for float32, \<open>2^-24\<close>).  The dot product of two
  vectors of at most \<open>d\<close> finite entries, none of whose products leaves the normal
  range, has an error of at most \<open>g\<close> times the sum of the magnitudes of the products
  (for float32 sums in any order, \<open>g\<close> is about \<open>d\<close> times \<open>2^-24\<close>).
\<close>

definition in_range :: "real \<Rightarrow> bool" where
  "in_range a = (a = 0 \<or> (1 / 2 ^ 126 \<le> \<bar>a\<bar> \<and> \<bar>a\<bar> \<le> 2 ^ 127))"

definition rounding_rel :: "real \<Rightarrow> numpy \<Rightarrow> bool" where
  "rounding_rel u L =
     (\<forall>a. in_range a \<longrightarrow> (\<exists>b. round_float32 L a = Fin b \<and> \<bar>b - a\<bar> \<le> u * \<bar>a\<bar>))"

definition dot_rel :: "nat \<Rightarrow> real \<Rightarrow> numpy \<Rightarrow> bool" where
  "dot_rel d g L =
     (\<forall>xs ys. length xs = length ys \<and> length xs \<le> d
         \<and> (\<forall>p\<in>set (zip xs ys). in_range (fst p * snd p))
         \<and> sum_list (map2 (\<lambda>a b. \<bar>a * b\<bar>) xs ys) \<le> 2 ^ 127
       \<longrightarrow> (\<exists>c. np_dot L (map Fin xs) (map Fin ys) = Fin c
              \<and> \<bar>c - sum_list (map2 (\<lambda>a b. a * b) xs ys)\<bar>
                  \<le> g * sum_list (map2 (\<lambda>a b. \<bar>a * b\<bar>) xs ys)))"

section \<open>Data model\<close>

text \<open>A two-dimensional numpy array: its second shape component and its rows.\<close>

record 'a ndarray =
  ncols :: nat
  rows :: "'a list list"

definition rectangular :: "'a ndarray \<Rightarrow> bool" where
  "rectangular M = list_all (\<lambda>r. length r = ncols M) (rows M)"

datatype error = KeyError string | IndexError | StopIteration | ValueError

record store =
  english_words :: "string list"
  normalized_embeddings :: "fl ndarray"

text \<open>
  The two parallel arrays come out of one filter over the embedding file, so they have
  one row per word.
\<close>

definition wf_store :: "store \<Rightarrow> bool" where
  "wf_store S = (length (rows (normalized_embeddings S)) = length (english_words S)
                 \<and> rectangular (normalized_embeddings S))"

section \<open>Normalisation\<close>

text \<open>
  \<^verbatim>\<open>norms = np.linalg.norm(english_embeddings, axis=1)\<close>
  \<^verbatim>\<open>normalized_embeddings = english_embeddings.astype('float32') / norms.astype('float32').reshape([-1, 1])\<close>
  Every entry of a row is cast and divided by the cast norm of its row.
\<close>

definition normalize_row :: "numpy \<Rightarrow> fl list \<Rightarrow> fl list" where
  "normalize_row L r =
     map (\<lambda>x. true_divide (round_float32 L)
                (astype_float32 (round_float32 L) x)
                (astype_float32 (round_float32 L) (np_norm L r))) r"

definition normalize :: "numpy \<Rightarrow> fl ndarray \<Rightarrow> fl ndarray" where
  "normalize L E = \<lparr>ncols = ncols E, rows = map (normalize_row L) (rows E)\<rparr>"

text \<open>
  The module state after the cells above have run on a word list and its raw
  embedding matrix.
\<close>

definition build_store :: "numpy \<Rightarrow> string list \<Rightarrow> fl ndarray \<Rightarrow> store" where
  "build_store L ws E = \<lparr>english_words = ws, normalized_embeddings = normalize L E\<rparr>"

section \<open>The index\<close>

text \<open>\<^verbatim>\<open>index = {word: i for i, word in enumerate(english_words)}\<close>\<close>

definition index :: "string list \<Rightarrow> (string \<rightharpoonup> nat)" where
  "index ws = foldl (\<lambda>m (i, w). m(w \<mapsto> i)) Map.empty (enumerate 0 ws)"

text \<open>\<^verbatim>\<open>normalized_embeddings[index[w], :]\<close>\<close>

definition lookup_row :: "store \<Rightarrow> string \<Rightarrow> error + fl list" where
  "lookup_row S w =
     (case index (english_words S) w of
        None \<Rightarrow> Inl (KeyError w)
      | Some i \<Rightarrow>
          if i < length (rows (normalized_embeddings S))
          then Inr (rows (normalized_embeddings S) ! i)
          else Inl IndexError)"

section \<open>Similarity\<close>

text \<open>
  \<^verbatim>\<open>score = np.dot(normalized_embeddings[index[w1], :], normalized_embeddings[index[w2], :])\<close>
  The first row is read before the second.  Two rows of one matrix have the same
  length, so \<open>np.dot\<close> has no shape error to raise here.
\<close>

definition similarity_score :: "numpy \<Rightarrow> store \<Rightarrow> string \<Rightarrow> string \<Rightarrow> error + fl" where
  "similarity_score L S w1 w2 =
     (case lookup_row S w1 of
        Inl e \<Rightarrow> Inl e
      | Inr r1 \<Rightarrow>
          (case lookup_row S w2 of
             Inl e \<Rightarrow> Inl e
           | Inr r2 \<Rightarrow> Inr (np_dot L r1 r2)))"

text \<open>
  \<^verbatim>\<open>all_scores = np.dot(normalized_embeddings, v)\<close>
  raises ValueError unless the vector has as many entries as the matrix has columns.
\<close>

definition all_scores :: "numpy \<Rightarrow> store \<Rightarrow> fl list \<Rightarrow> error + fl list" where
  "all_scores L S v =
     (if length v = ncols (normalized_embeddings S)
      then Inr (np_dot_matrix L (rows (normalized_embeddings S)) v)
      else Inl ValueError)"

text \<open>
  \<^verbatim>\<open>best_words = map(lambda i: english_words[i], reversed(np.argsort(all_scores)))\<close>
  \<^verbatim>\<open>return [next(best_words) for _ in range(n)]\<close>
  The iterator is lazy: each \<open>next\<close> looks one word up, and raises StopIteration
  once the row numbers are used up.
\<close>

fun next_words :: "string list \<Rightarrow> nat \<Rightarrow> nat list \<Rightarrow> error + string list" where
  "next_words ws 0 js = Inr []"
| "next_words ws (Suc k) [] = Inl StopIteration"
| "next_words ws (Suc k) (j # js) =
     (if j < length ws
      then (case next_words ws k js of
              Inl e \<Rightarrow> Inl e
            | Inr out \<Rightarrow> Inr (ws ! j # out))
      else Inl IndexError)"

text \<open>The row numbers in the order of \<open>reversed(np.argsort(all_scores))\<close>.\<close>

definition ranking :: "numpy \<Rightarrow> store \<Rightarrow> fl list \<Rightarrow> error + nat list" where
  "ranking L S v =
     (case all_scores L S v of
        Inl e \<Rightarrow> Inl e
      | Inr scores \<Rightarrow> Inr (rev (np_argsort L scores)))"

definition closest_to_vector :: "numpy \<Rightarrow> store \<Rightarrow> fl list \<Rightarrow> int \<Rightarrow> error + string list" where
  "closest_to_vector L S v n =
     (case ranking L S v of
        Inl e \<Rightarrow> Inl e
      | Inr best \<Rightarrow> next_words (english_words S) (nat n) best)"

definition most_similar :: "numpy \<Rightarrow> store \<Rightarrow> string \<Rightarrow> int \<Rightarrow> error + string list" where
  "most_similar L S w n =
     (case lookup_row S w of
        Inl e \<Rightarrow> Inl e
      | Inr r \<Rightarrow> closest_to_vector L S r n)"

section \<open>Analogies\<close>

text \<open>\<open>-\<close> and \<open>+\<close> of two rows, entry by entry.\<close>

definition vsub :: "numpy \<Rightarrow> fl list \<Rightarrow> fl list \<Rightarrow> fl list" where
  "vsub L xs ys = map2 (fsub (round_float32 L)) xs ys"

definition vadd :: "numpy \<Rightarrow> fl list \<Rightarrow> fl list \<Rightarrow> fl list" where
  "vadd L xs ys = map2 (fadd (round_float32 L)) xs ys"

text \<open>
  \<^verbatim>\<open>b2 = normalized_embeddings[index[b1], :] - normalized_embeddings[index[a1], :] + normalized_embeddings[index[a2], :]\<close>
  \<^verbatim>\<open>return closest_to_vector(b2, 10)\<close>
  The three rows are read from left to right, so \<open>b1\<close> is looked up first.
\<close>

definition solve_analogy ::
  "numpy \<Rightarrow> store \<Rightarrow> string \<Rightarrow> string \<Rightarrow> string \<Rightarrow> error + string list" where
  "solve_analogy L S a1 b1 a2 =
     (case lookup_row S b1 of
        Inl e \<Rightarrow> Inl e
      | Inr rb \<Rightarrow>
          (case lookup_row S a1 of
             Inl e \<Rightarrow> Inl e
           | Inr ra \<Rightarrow>
               (case lookup_row S a2 of
                  Inl e \<Rightarrow> Inl e
                | Inr rc \<Rightarrow> closest_to_vector L S (vadd L (vsub L rb ra) rc) 10)))"

section \<open>Notions used in the statements\<close>

text \<open>\<open>s * v\<close> for a finite float scalar \<open>s\<close> and a vector \<open>v\<close>, entry by entry.\<close>

definition scale :: "numpy \<Rightarrow> real \<Rightarrow> fl list \<Rightarrow> fl list" where
  "scale L s v = map (fmul (round_float32 L) (Fin s)) v"

text \<open>The score of row \<open>i\<close> against a query: entry \<open>i\<close> of \<open>all_scores\<close>.\<close>

definition score_at :: "numpy \<Rightarrow> store \<Rightarrow> fl list \<Rightarrow> nat \<Rightarrow> fl" where
  "score_at L S v i = np_dot_matrix L (rows (normalized_embeddings S)) v ! i"

text \<open>The number that a finite float is.\<close>

fun fin_val :: "fl \<Rightarrow> real" where
  "fin_val (Fin a) = a"
| "fin_val PInf = 0"
| "fin_val NInf = 0"
| "fin_val NaN = 0"

text \<open>\<open>a\<close> stands at an earlier position of the list than \<open>b\<close>.\<close>

definition listed_before :: "nat list \<Rightarrow> nat \<Rightarrow> nat \<Rightarrow> bool" where
  "listed_before xs a b = (\<exists>q<length xs. \<exists>p<q. xs ! p = a \<and> xs ! q = b)"

section \<open>Two libraries that meet these conditions, to run the functions\<close>

text \<open>
  A library built on a rounding \<open>rnd\<close>: sums run from left to right and the sort is an
  insertion sort.  The norm is computed in double precision, before the cast to float32;
  here it is not rounded.
\<close>

definition seq_dot :: "(real \<Rightarrow> fl) \<Rightarrow> fl list \<Rightarrow> fl list \<Rightarrow> fl" where
  "seq_dot rnd xs ys = foldl (fadd rnd) (Fin 0) (map2 (fmul rnd) xs ys)"

fun fsqrt :: "fl \<Rightarrow> fl" where
  "fsqrt (Fin a) = (if a < 0 then NaN else Fin (sqrt a))"
| "fsqrt PInf = PInf"
| "fsqrt NInf = NaN"
| "fsqrt NaN = NaN"

definition simple_library :: "(real \<Rightarrow> fl) \<Rightarrow> numpy" where
  "simple_library rnd =
     \<lparr>round_float32 = rnd,
      np_dot = seq_dot rnd,
      np_dot_matrix = (\<lambda>M v. map (\<lambda>r. seq_dot rnd r v) M),
      np_argsort = (\<lambda>xs. sort_key (\<lambda>i. fl_key (xs ! i)) [0..<length xs]),
      np_norm = (\<lambda>r. fsqrt (seq_dot Fin r r))\<rparr>"

text \<open>
  In the first library no result is rounded.  The examples that use it work on small
  binary fractions, on which float32 arithmetic is exact, so their scores are the ones
  any float library computes.
\<close>

definition exact_library :: numpy where
  "exact_library = simple_library Fin"

text \<open>
  The second library knows the range of float32 and nothing of its precision: a result
  of magnitude \<open>2^128\<close> or more is an infinity, one of magnitude \<open>2^-150\<close> or less is
  zero, and a result in between is kept as it is.
\<close>

definition float32_range :: "real \<Rightarrow> fl" where
  "float32_range x =
     (if 2 ^ 128 \<le> \<bar>x\<bar> then signed_inf x
      else if \<bar>x\<bar> * 2 ^ 150 \<le> 1 then Fin 0
      else Fin x)"

definition ranged_library :: numpy where
  "ranged_library = simple_library float32_range"

definition example_store :: store where
  "example_store =
     \<lparr>english_words = [''cat'', ''dog'', ''car''],
      normalized_embeddings =
        \<lparr>ncols = 2, rows = [ [Fin 1, Fin 0], [Fin (3/4), Fin (1/2)], [Fin 0, Fin 1] ]\<rparr>\<rparr>"

text \<open>A store whose second row is what normalisation makes of a zero row.\<close>

definition nan_store :: store where
  "nan_store =
     \<lparr>english_words = [''cat'', ''dog''],
      normalized_embeddings =
        \<lparr>ncols = 2, rows = [ [Fin 1, Fin 0], [NaN, NaN] ]\<rparr>\<rparr>"

text \<open>Two words on the two axes.\<close>

definition axis_store :: store where
  "axis_store =
     \<lparr>english_words = [''cat'', ''car''],
      normalized_embeddings =
        \<lparr>ncols = 2, rows = [ [Fin 1, Fin 0], [Fin 0, Fin 1] ]\<rparr>\<rparr>"

text \<open>Twelve words with three coordinates: male, female, royal.\<close>

definition family_store :: store where
  "family_store =
     \<lparr>english_words = [''man'', ''woman'', ''king'', ''queen'', ''boy'', ''girl'',
                       ''prince'', ''princess'', ''husband'', ''wife'', ''car'', ''dog''],
      normalized_embeddings =
        \<lparr>ncols = 3,
         rows = [ [Fin 1, Fin 0, Fin 0], [Fin 0, Fin 1, Fin 0],
                  [Fin 1, Fin 0, Fin 2], [Fin 0, Fin 1, Fin 2],
                  [Fin 1, Fin 0, Fin (1/4)], [Fin 0, Fin 1, Fin (1/4)],
                  [Fin 1, Fin 0, Fin 1], [Fin 0, Fin 1, Fin 1],
                  [Fin 1, Fin 0, Fin (1/8)], [Fin 0, Fin 1, Fin (1/8)],
                  [Fin 0, Fin 0, Fin (- 1)], [Fin 0, Fin (- 3), Fin 0] ]\<rparr>\<rparr>"

section \<open>The index: basic facts\<close>

lemma index_snoc: "index (ws @ [w]) = (index ws)(w \<mapsto> length ws)"
  by (simp add: index_def enumerate_append_eq)

lemma index_props:
  "(w \<in> set ws \<longrightarrow> (\<exists>i. index ws w = Some i \<and> i < length ws \<and> ws ! i = w
        \<and> (\<forall>j<length ws. ws ! j = w \<longrightarrow> j \<le> i)))
   \<and> (w \<notin> set ws \<longrightarrow> index ws w = None)"
proof (induction ws rule: rev_induct)
  case Nil
  show ?case by (simp add: index_def)
next
  case (snoc x xs)
  show ?case
  proof (cases "x = w")
    case True
    then show ?thesis by (auto simp: index_snoc nth_append)
  next
    case False
    with snoc show ?thesis
      by (auto simp: index_snoc nth_append less_Suc_eq)
  qed
qed

lemma index_bound: "index ws w = Some i \<Longrightarrow> i < length ws \<and> ws ! i = w"
  using index_props [of w ws] by (cases "w \<in> set ws") auto

lemma lookup_row_absent:
  "index (english_words S) w = None \<Longrightarrow> lookup_row S w = Inl (KeyError w)"
  by (simp add: lookup_row_def)

lemma lookup_row_present:
  assumes "wf_store S" and "index (english_words S) w = Some i"
  shows "lookup_row S w = Inr (rows (normalized_embeddings S) ! i)"
proof -
  have "i < length (rows (normalized_embeddings S))"
    using assms index_bound [of "english_words S" w i] by (simp add: wf_store_def)
  with assms(2) show ?thesis by (simp add: lookup_row_def)
qed

lemma lookup_row_cases:
  assumes "wf_store S"
  shows "(index (english_words S) w = None \<and> lookup_row S w = Inl (KeyError w))
       \<or> (\<exists>r. lookup_row S w = Inr r)"
proof (cases "index (english_words S) w")
  case None then show ?thesis by (simp add: lookup_row_absent)
next
  case (Some i) then show ?thesis using lookup_row_present [OF assms Some] by simp
qed

lemma row_length:
  assumes "wf_store S" and "i < length (english_words S)"
  shows "length (rows (normalized_embeddings S) ! i) = ncols (normalized_embeddings S)"
proof -
  have "rows (normalized_embeddings S) ! i \<in> set (rows (normalized_embeddings S))"
    using assms by (simp add: wf_store_def)
  then show ?thesis
    using assms(1) by (simp add: wf_store_def rectangular_def list_all_iff)
qed

section \<open>Consuming the iterator\<close>

lemma next_words_take:
  "\<forall>j\<in>set js. j < length ws \<Longrightarrow> k \<le> length js
   \<Longrightarrow> next_words ws k js = Inr (map (\<lambda>j. ws ! j) (take k js))"
proof (induction ws k js rule: next_words.induct)
  case (1 ws js) show ?case by simp
next
  case (2 ws k) then show ?case by simp
next
  case (3 ws k j js) then show ?case by simp
qed

lemma next_words_stop:
  "\<forall>j\<in>set js. j < length ws \<Longrightarrow> length js < k
   \<Longrightarrow> next_words ws k js = Inl StopIteration"
proof (induction ws k js rule: next_words.induct)
  case (1 ws js) then show ?case by simp
next
  case (2 ws k) then show ?case by simp
next
  case (3 ws k j js) then show ?case by simp
qed

section \<open>The ranking\<close>

lemma ranking_Inr:
  "length v = ncols (normalized_embeddings S)
   \<Longrightarrow> ranking L S v
       = Inr (rev (np_argsort L (np_dot_matrix L (rows (normalized_embeddings S)) v)))"
  by (simp add: ranking_def all_scores_def)

lemma ranking_Inl:
  "length v \<noteq> ncols (normalized_embeddings S) \<Longrightarrow> ranking L S v = Inl ValueError"
  by (simp add: ranking_def all_scores_def)

lemma ranking_props:
  assumes "ranking_ok L" and "ranking L S v = Inr best"
  shows "set best = {0..<length (rows (normalized_embeddings S))}"
    and "distinct best"
    and "length best = length (rows (normalized_embeddings S))"
    and "sorted_wrt (\<lambda>a b. fl_key (score_at L S v b) \<le> fl_key (score_at L S v a)) best"
proof -
  let ?xs = "np_dot_matrix L (rows (normalized_embeddings S)) v"
  let ?as = "np_argsort L ?xs"
  have len: "length v = ncols (normalized_embeddings S)"
    using assms(2) ranking_Inl [of v S L]
    by (cases "length v = ncols (normalized_embeddings S)") auto
  have best: "best = rev ?as"
    using assms(2) ranking_Inr [OF len, of L] by simp
  have lx: "length ?xs = length (rows (normalized_embeddings S))"
    using assms(1) by (simp add: ranking_ok_def)
  have d: "distinct ?as" and s: "set ?as = {0..<length ?xs}"
    and o: "sorted (map (\<lambda>i. fl_key (?xs ! i)) ?as)"
    using assms(1) by (simp_all add: ranking_ok_def)
  show "set best = {0..<length (rows (normalized_embeddings S))}"
    using s lx by (simp add: best)
  show "distinct best" using d by (simp add: best)
  have "length ?as = card (set ?as)" using d by (simp add: distinct_card)
  then show "length best = length (rows (normalized_embeddings S))"
    using s lx by (simp add: best)
  have "sorted_wrt (\<lambda>a b. fl_key (?xs ! a) \<le> fl_key (?xs ! b)) ?as"
    using o by (simp add: sorted_map)
  then show "sorted_wrt (\<lambda>a b. fl_key (score_at L S v b) \<le> fl_key (score_at L S v a)) best"
    by (simp add: best sorted_wrt_rev score_at_def)
qed

lemma closest_Inr:
  assumes "ranking_ok L" and "ranking L S v = Inr best"
    and "length (rows (normalized_embeddings S)) = length (english_words S)"
    and "nat n \<le> length (english_words S)"
  shows "closest_to_vector L S v n = Inr (map (\<lambda>i. english_words S ! i) (take (nat n) best))"
proof -
  have "\<forall>j\<in>set best. j < length (english_words S)"
    using ranking_props(1) [OF assms(1,2)] assms(3) by simp
  moreover have "nat n \<le> length best"
    using ranking_props(3) [OF assms(1,2)] assms(3,4) by simp
  ultimately show ?thesis
    using assms(2) by (simp add: closest_to_vector_def next_words_take)
qed

lemma closest_stop:
  assumes "ranking_ok L" and "ranking L S v = Inr best"
    and "length (rows (normalized_embeddings S)) = length (english_words S)"
    and "length (english_words S) < nat n"
  shows "closest_to_vector L S v n = Inl StopIteration"
proof -
  have "\<forall>j\<in>set best. j < length (english_words S)"
    using ranking_props(1) [OF assms(1,2)] assms(3) by simp
  moreover have "length best < nat n"
    using ranking_props(3) [OF assms(1,2)] assms(3,4) by simp
  ultimately show ?thesis
    using assms(2) by (simp add: closest_to_vector_def next_words_stop)
qed

lemma fl_gt_key: "fl_gt x y \<Longrightarrow> fl_key y < fl_key x"
  by (simp add: fl_gt_def)

lemma ranking_hd:
  assumes "ranking_ok L" and "ranking L S v = Inr best"
    and "i < length (rows (normalized_embeddings S))"
    and "\<forall>j<length (rows (normalized_embeddings S)). j \<noteq> i
           \<longrightarrow> fl_gt (score_at L S v i) (score_at L S v j)"
  shows "\<exists>rest. best = i # rest"
proof (cases best)
  case Nil
  with ranking_props(3) [OF assms(1,2)] assms(3) show ?thesis by simp
next
  case (Cons h rest)
  have h: "h < length (rows (normalized_embeddings S))"
    using ranking_props(1) [OF assms(1,2)] Cons by auto
  have "h = i"
  proof (rule ccontr)
    assume ne: "h \<noteq> i"
    have "i \<in> set best" using ranking_props(1) [OF assms(1,2)] assms(3) by simp
    with ne Cons have "i \<in> set rest" by auto
    with ranking_props(4) [OF assms(1,2)] Cons
    have "fl_key (score_at L S v i) \<le> fl_key (score_at L S v h)" by simp
    moreover have "fl_key (score_at L S v h) < fl_key (score_at L S v i)"
      using assms(4) h ne by (simp add: fl_gt_key)
    ultimately show False by simp
  qed
  with Cons show ?thesis by simp
qed

lemma listed_before_rev:
  assumes "distinct xs"
  shows "listed_before (rev xs) a b \<longleftrightarrow> listed_before xs b a"
proof -
  have imp: "listed_before ys a b \<Longrightarrow> listed_before (rev ys) b a" for ys :: "nat list" and a b
  proof -
    assume "listed_before ys a b"
    then obtain p q where pq: "q < length ys" "p < q" "ys ! p = a" "ys ! q = b"
      by (auto simp: listed_before_def)
    let ?n = "length ys"
    have "?n - Suc p < length (rev ys)" "?n - Suc q < ?n - Suc p"
      "rev ys ! (?n - Suc q) = b" "rev ys ! (?n - Suc p) = a"
      using pq by (simp_all add: rev_nth)
    then show "listed_before (rev ys) b a"
      unfolding listed_before_def by blast
  qed
  show ?thesis
    using imp [of "rev xs" a b] imp [of xs b a] by auto
qed

section \<open>The two libraries\<close>

lemma ranking_ok_simple: "ranking_ok (simple_library rnd)"
  by (simp add: ranking_ok_def simple_library_def)

lemma ranking_ok_exact: "ranking_ok exact_library"
  unfolding exact_library_def by (rule ranking_ok_simple)





lemma seq_dot_zeros:
  "\<forall>x\<in>set r. x = Fin 0 \<Longrightarrow> foldl (fadd Fin) (Fin 0) (map2 (fmul Fin) r r) = Fin 0"
  by (induction r) simp_all

lemma zeros_ok_exact: "zeros_ok exact_library"
  by (simp add: zeros_ok_def exact_library_def simple_library_def seq_dot_def seq_dot_zeros)

lemma wf_example: "wf_store example_store"
  by (simp add: wf_store_def rectangular_def example_store_def)

lemma wf_nan: "wf_store nan_store"
  by (simp add: wf_store_def rectangular_def nan_store_def)

lemma wf_axis: "wf_store axis_store"
  by (simp add: wf_store_def rectangular_def axis_store_def)

lemma wf_family: "wf_store family_store"
  by (simp add: wf_store_def rectangular_def family_store_def)

lemmas run_defs = closest_to_vector_def ranking_def all_scores_def score_at_def
  exact_library_def ranged_library_def simple_library_def seq_dot_def upt_conv_Cons
  solve_analogy_def most_similar_def similarity_score_def lookup_row_def index_def
  vadd_def vsub_def fsub_def scale_def

section \<open>Error bounds\<close>

lemma rel_abs_bounds:
  fixes a b u :: real
  assumes "\<bar>b - a\<bar> \<le> u * \<bar>a\<bar>"
  shows "(1 - u) * \<bar>a\<bar> \<le> \<bar>b\<bar>" and "\<bar>b\<bar> \<le> (1 + u) * \<bar>a\<bar>"
proof -
  have "\<bar>a\<bar> - \<bar>b\<bar> \<le> \<bar>b - a\<bar>" by simp
  with assms show "(1 - u) * \<bar>a\<bar> \<le> \<bar>b\<bar>" by (simp add: algebra_simps)
  have "\<bar>b\<bar> - \<bar>a\<bar> \<le> \<bar>b - a\<bar>" by simp
  with assms show "\<bar>b\<bar> \<le> (1 + u) * \<bar>a\<bar>" by (simp add: algebra_simps)
qed

lemma entry_bounds:
  fixes u N \<nu> n b x r :: real
  assumes u: "0 \<le> u" "u \<le> 1/2" and N: "0 < N"
    and nu: "\<bar>\<nu> - N\<bar> \<le> u * N"
    and n: "\<bar>n - \<nu>\<bar> \<le> u * \<bar>\<nu>\<bar>"
    and b: "\<bar>b - x\<bar> \<le> u * \<bar>x\<bar>"
    and r: "\<bar>r - b / n\<bar> \<le> u * \<bar>b / n\<bar>"
  shows "0 < n"
    and "((1 - u) / (1 + u)) ^ 2 * (\<bar>x\<bar> / N) \<le> \<bar>r\<bar>"
    and "\<bar>r\<bar> \<le> ((1 + u) / (1 - u)) ^ 2 * (\<bar>x\<bar> / N)"
proof -
  have u1: "0 < 1 - u" "0 < 1 + u" using u by simp_all
  have nu1: "(1 - u) * N \<le> \<nu>" "\<nu> \<le> (1 + u) * N"
    using nu N by (simp_all add: abs_le_iff algebra_simps)
  have nupos: "0 < \<nu>" using nu1(1) u1(1) N by (meson less_le_trans mult_pos_pos)
  have n1: "(1 - u) * \<nu> \<le> n" "n \<le> (1 + u) * \<nu>"
    using n nupos by (simp_all add: abs_le_iff algebra_simps)
  have "0 < (1 - u) * \<nu>" using u1(1) nupos by simp
  with n1(1) show npos: "0 < n" by simp
  have nlo: "(1 - u) * ((1 - u) * N) \<le> n"
    using n1(1) nu1(1) u1(1) by (meson mult_left_mono less_imp_le order_trans)
  have nhi: "n \<le> (1 + u) * ((1 + u) * N)"
    using n1(2) nu1(2) u1(2) by (meson mult_left_mono less_imp_le order_trans)
  note bb = rel_abs_bounds [OF b]
  have an: "\<bar>n\<bar> = n" using npos by simp
  have bn: "\<bar>b / n\<bar> = \<bar>b\<bar> / n" by (simp only: abs_divide an)
  note rr = rel_abs_bounds [OF r, unfolded bn]
  have lo1: "(1 - u) * \<bar>x\<bar> / ((1 + u) * ((1 + u) * N)) \<le> \<bar>b\<bar> / n"
    using bb(1) nhi npos by (intro frac_le) (simp_all add: u1 less_imp_le)
  have hi1: "\<bar>b\<bar> / n \<le> (1 + u) * \<bar>x\<bar> / ((1 - u) * ((1 - u) * N))"
    using bb(2) nlo u1 N by (intro frac_le) simp_all
  have "((1 - u) / (1 + u)) ^ 2 * (\<bar>x\<bar> / N)
        = (1 - u) * ((1 - u) * \<bar>x\<bar> / ((1 + u) * ((1 + u) * N)))"
    by (simp add: power2_eq_square mult.assoc)
  also have "\<dots> \<le> (1 - u) * (\<bar>b\<bar> / n)"
    using lo1 u1(1) by (intro mult_left_mono) simp_all
  also have "\<dots> \<le> \<bar>r\<bar>" by (rule rr(1))
  finally show "((1 - u) / (1 + u)) ^ 2 * (\<bar>x\<bar> / N) \<le> \<bar>r\<bar>" .
  have "\<bar>r\<bar> \<le> (1 + u) * (\<bar>b\<bar> / n)" by (rule rr(2))
  also have "\<dots> \<le> (1 + u) * ((1 + u) * \<bar>x\<bar> / ((1 - u) * ((1 - u) * N)))"
    using hi1 u1(2) by (intro mult_left_mono) simp_all
  also have "\<dots> = ((1 + u) / (1 - u)) ^ 2 * (\<bar>x\<bar> / N)"
    by (simp add: power2_eq_square mult.assoc)
  finally show "\<bar>r\<bar> \<le> ((1 + u) / (1 - u)) ^ 2 * (\<bar>x\<bar> / N)" .
qed

lemma square_bounds:
  fixes A B y r :: real
  assumes "0 \<le> A" "0 \<le> y" "A * y \<le> \<bar>r\<bar>" "\<bar>r\<bar> \<le> B * y"
  shows "A ^ 2 * (y * y) \<le> r * r" and "r * r \<le> B ^ 2 * (y * y)"
proof -
  have "0 \<le> A * y" using assms by simp
  then have "(A * y) * (A * y) \<le> \<bar>r\<bar> * \<bar>r\<bar>" using assms(3) by (intro mult_mono) simp_all
  then show "A ^ 2 * (y * y) \<le> r * r" by (simp add: power2_eq_square algebra_simps)
  have "\<bar>r\<bar> * \<bar>r\<bar> \<le> (B * y) * (B * y)" using assms(4) by (intro mult_mono) simp_all
  then show "r * r \<le> B ^ 2 * (y * y)" by (simp add: power2_eq_square algebra_simps)
qed

lemma sum_list_bounds:
  fixes A B :: real
  assumes "\<forall>x\<in>set xs. A * f x \<le> h x \<and> h x \<le> B * f x"
  shows "A * sum_list (map f xs) \<le> sum_list (map h xs)"
    and "sum_list (map h xs) \<le> B * sum_list (map f xs)"
  using assms by (induction xs) (auto simp: algebra_simps add_mono)

lemma sum_list_div_const:
  "sum_list (map (\<lambda>x. f x / c) xs) = sum_list (map f xs) / (c::real)"
  by (induction xs) (simp_all add: add_divide_distrib)

lemma pow4_le_2_127:
  fixes u :: real
  assumes "0 \<le> u" "u \<le> 1/2"
  shows "((1 + u) / (1 - u)) ^ 4 \<le> 2 ^ 127"
proof -
  have "(1 + u) / (1 - u) \<le> 3"
    using assms by (simp add: divide_le_eq)
  moreover have "0 \<le> (1 + u) / (1 - u)" using assms by simp
  ultimately have "((1 + u) / (1 - u)) ^ 4 \<le> 3 ^ 4" by (rule power_mono)
  also have "\<dots> \<le> (2::real) ^ 127" by simp
  finally show ?thesis .
qed

lemma seq_dot_Fin:
  "foldl (fadd Fin) (Fin a) (map2 (fmul Fin) (map Fin xs) (map Fin ys))
   = Fin (a + sum_list (map2 (\<lambda>a b. a * b) xs ys))"
proof (induction xs arbitrary: ys a)
  case Nil show ?case by simp
next
  case (Cons x xs) then show ?case by (cases ys) (simp_all add: add.assoc)
qed

lemma rounding_rel_exact: "0 \<le> u \<Longrightarrow> rounding_rel u exact_library"
  by (simp add: rounding_rel_def exact_library_def simple_library_def)

lemma dot_rel_exact:
  assumes "0 \<le> g"
  shows "dot_rel d g exact_library"
proof -
  have "0 \<le> g * sum_list (map2 (\<lambda>a b. \<bar>a * b\<bar>) xs ys)" for xs ys :: "real list"
    using assms by (intro mult_nonneg_nonneg sum_list_nonneg) auto
  then show ?thesis
    using seq_dot_Fin [of 0]
    by (simp add: dot_rel_def exact_library_def simple_library_def seq_dot_def)
qed

lemma norm_axis: "0 \<le> a \<Longrightarrow> np_norm (simple_library rnd) [Fin a, Fin 0] = Fin a"
  by (simp add: simple_library_def seq_dot_def)

lemma underflow_row:
  assumes "0 \<le> a" and "a * 2 ^ 150 \<le> 1"
  shows "normalize_row ranged_library [Fin a, Fin 0] = [NaN, NaN]"
proof -
  have nv: "np_norm ranged_library [Fin a, Fin 0] = Fin a"
    unfolding ranged_library_def by (rule norm_axis [OF assms(1)])
  have "a * 1 \<le> a * 2 ^ 150" using assms(1) by (intro mult_left_mono) simp_all
  with assms(2) have "a \<le> 1" by simp
  have r: "round_float32 ranged_library = float32_range"
    by (simp add: ranged_library_def simple_library_def)
  have c: "float32_range a = Fin 0" "float32_range 0 = Fin 0"
    using assms \<open>a \<le> 1\<close> by (simp_all add: float32_range_def)
  show ?thesis
    by (simp add: normalize_row_def nv r c signed_inf_def)
qed

section \<open>Claims\<close>

text \<open>
  Claim C1, as stated, fails: a score can be NaN, numpy sorts NaN after every number, and
  the reversal puts it first.  In \<open>nan_store\<close> the row of dog is NaN; against the query
  \<open>[1, 0]\<close> dog scores NaN and cat scores 1, dog is returned before cat, and NaN is not
  greater than or equal to 1.
\<close>

theorem closest_to_vector_nan_first_counterexample:
  "closest_to_vector exact_library nan_store [Fin 1, Fin 0] 2 = Inr [''dog'', ''cat'']
   \<and> score_at exact_library nan_store [Fin 1, Fin 0] 1 = NaN
   \<and> score_at exact_library nan_store [Fin 1, Fin 0] 0 = Fin 1
   \<and> \<not> fl_ge NaN (Fin 1)"
  by (simp add: run_defs nan_store_def numeral_2_eq_2 fl_ge_def)

text \<open>
  Claim C1, amended.  For a store with one row per word, a query with one entry per
  column and \<open>0 \<le> n \<le> V\<close>, \<open>closest_to_vector\<close> returns exactly \<open>n\<close> words, the words of
  \<open>n\<close> distinct rows; and when no score is NaN, the scores of these rows against the
  query do not increase along the result, and no row left out scores higher than a row
  returned.
\<close>

theorem closest_to_vector_top_n:
  assumes "ranking_ok L"
    and "wf_store S"
    and "length v = ncols (normalized_embeddings S)"
    and "0 \<le> n" and "n \<le> int (length (english_words S))"
  shows "\<exists>ws js. closest_to_vector L S v n = Inr ws
           \<and> length ws = nat n
           \<and> ws = map (\<lambda>i. english_words S ! i) js
           \<and> distinct js
           \<and> set js \<subseteq> {0..<length (english_words S)}
           \<and> ((\<forall>i<length (english_words S). score_at L S v i \<noteq> NaN) \<longrightarrow>
                sorted_wrt (\<lambda>a b. fl_ge (score_at L S v a) (score_at L S v b)) js
                \<and> (\<forall>i\<in>set js. \<forall>j<length (english_words S). j \<notin> set js
                      \<longrightarrow> fl_ge (score_at L S v i) (score_at L S v j)))"
proof -
  define best where
    "best = rev (np_argsort L (np_dot_matrix L (rows (normalized_embeddings S)) v))"
  have rk: "ranking L S v = Inr best"
    using ranking_Inr [OF assms(3), of L] by (simp add: best_def)
  note rp = ranking_props [OF assms(1) rk]
  have len: "length (rows (normalized_embeddings S)) = length (english_words S)"
    using assms(2) by (simp add: wf_store_def)
  have n: "nat n \<le> length (english_words S)" using assms(4,5) by simp
  let ?js = "take (nat n) best"
  let ?ge = "\<lambda>a b. fl_key (score_at L S v b) \<le> fl_key (score_at L S v a)"
  have srt: "\<forall>x\<in>set (take (nat n) best). \<forall>y\<in>set (drop (nat n) best). ?ge x y"
    using rp(4) sorted_wrt_append [of ?ge "take (nat n) best" "drop (nat n) best"]
    by simp
  have 1: "closest_to_vector L S v n = Inr (map (\<lambda>i. english_words S ! i) ?js)"
    by (rule closest_Inr [OF assms(1) rk len n])
  have 2: "length (map (\<lambda>i. english_words S ! i) ?js) = nat n"
    using rp(3) len n by simp
  have 3: "distinct ?js" using rp(2) by simp
  have 4: "set ?js \<subseteq> {0..<length (english_words S)}"
    using rp(1) len set_take_subset [of "nat n" best] by auto
  have 5: "(\<forall>i<length (english_words S). score_at L S v i \<noteq> NaN) \<longrightarrow>
                sorted_wrt (\<lambda>a b. fl_ge (score_at L S v a) (score_at L S v b)) ?js
                \<and> (\<forall>i\<in>set ?js. \<forall>j<length (english_words S). j \<notin> set ?js
                      \<longrightarrow> fl_ge (score_at L S v i) (score_at L S v j))"
  proof (intro impI conjI)
    assume nn: "\<forall>i<length (english_words S). score_at L S v i \<noteq> NaN"
    have ge: "?ge a b \<Longrightarrow> a < length (english_words S) \<Longrightarrow> b < length (english_words S)
              \<Longrightarrow> fl_ge (score_at L S v a) (score_at L S v b)" for a b
      using nn by (simp add: fl_ge_def)
    have "sorted_wrt ?ge ?js" using rp(4) by (rule sorted_wrt_take)
    then show "sorted_wrt (\<lambda>a b. fl_ge (score_at L S v a) (score_at L S v b)) ?js"
    proof (rule sorted_wrt_mono_rel [rotated])
      fix a b assume "a \<in> set ?js" "b \<in> set ?js" and "?ge a b"
      with 4 show "fl_ge (score_at L S v a) (score_at L S v b)"
        by (intro ge) auto
    qed
    show "\<forall>i\<in>set ?js. \<forall>j<length (english_words S). j \<notin> set ?js
            \<longrightarrow> fl_ge (score_at L S v i) (score_at L S v j)"
    proof (intro ballI allI impI)
      fix i j assume i: "i \<in> set ?js" and j: "j < length (english_words S)" "j \<notin> set ?js"
      have "j \<in> set best" using rp(1) len j(1) by simp
      then have "j \<in> set (take (nat n) best) \<union> set (drop (nat n) best)"
        by (metis append_take_drop_id set_append)
      with j(2) have "j \<in> set (drop (nat n) best)" by blast
      with srt i have "?ge i j" by blast
      moreover have "i < length (english_words S)" using i 4 by auto
      ultimately show "fl_ge (score_at L S v i) (score_at L S v j)"
        using j(1) by (intro ge)
    qed
  qed
  show ?thesis
    by (intro exI [of _ "map (\<lambda>i. english_words S ! i) ?js"] exI [of _ ?js] conjI 1 2 3 4 5 refl)
qed

text \<open>
  The three-word store, query \<open>[1, 0]\<close>, \<open>n = 2\<close>: the scores are 1, 3/4 and 0, none is
  NaN, and the result is cat, then dog.
\<close>

theorem closest_to_vector_top_n_witness:
  "wf_store example_store
   \<and> length [Fin 1, Fin 0] = ncols (normalized_embeddings example_store)
   \<and> (2::int) \<le> int (length (english_words example_store))
   \<and> score_at exact_library example_store [Fin 1, Fin 0] 0 = Fin 1
   \<and> score_at exact_library example_store [Fin 1, Fin 0] 1 = Fin (3/4)
   \<and> score_at exact_library example_store [Fin 1, Fin 0] 2 = Fin 0
   \<and> closest_to_vector exact_library example_store [Fin 1, Fin 0] 2 = Inr [''cat'', ''dog'']
   \<and> (\<exists>ws js. closest_to_vector exact_library example_store [Fin 1, Fin 0] 2 = Inr ws
         \<and> length ws = 2
         \<and> ws = map (\<lambda>i. english_words example_store ! i) js
         \<and> sorted_wrt (\<lambda>a b. fl_ge (score_at exact_library example_store [Fin 1, Fin 0] a)
                                  (score_at exact_library example_store [Fin 1, Fin 0] b)) js)"
proof -
  have h0: "ranking_ok exact_library" by (rule ranking_ok_exact)
  have h1: "wf_store example_store" by (rule wf_example)
  have h2: "length [Fin 1, Fin 0] = ncols (normalized_embeddings example_store)"
    by (simp add: example_store_def)
  have h3: "(0::int) \<le> 2" by simp
  have h4: "(2::int) \<le> int (length (english_words example_store))"
    by (simp add: example_store_def)
  have sc: "score_at exact_library example_store [Fin 1, Fin 0] 0 = Fin 1"
    "score_at exact_library example_store [Fin 1, Fin 0] 1 = Fin (3/4)"
    "score_at exact_library example_store [Fin 1, Fin 0] 2 = Fin 0"
    by (simp_all add: run_defs example_store_def)
  have nn: "\<forall>i<length (english_words example_store).
         score_at exact_library example_store [Fin 1, Fin 0] i \<noteq> NaN"
    by (simp add: run_defs example_store_def numeral_3_eq_3 less_Suc_eq)
  have ev: "closest_to_vector exact_library example_store [Fin 1, Fin 0] 2 = Inr [''cat'', ''dog'']"
    by (simp add: run_defs example_store_def numeral_2_eq_2)
  from closest_to_vector_top_n [OF h0 h1 h2 h3 h4] nn
  have "\<exists>ws js. closest_to_vector exact_library example_store [Fin 1, Fin 0] 2 = Inr ws
         \<and> length ws = 2
         \<and> ws = map (\<lambda>i. english_words example_store ! i) js
         \<and> sorted_wrt (\<lambda>a b. fl_ge (score_at exact_library example_store [Fin 1, Fin 0] a)
                                  (score_at exact_library example_store [Fin 1, Fin 0] b)) js"
    by auto
  with h1 h2 h4 sc ev show ?thesis by blast
qed

text \<open>
  Claim C2, as stated, fails: the division is carried out for every row, and the zero
  row comes out as a row of NaN.
\<close>

theorem normalize_zero_row_counterexample:
  "rows (normalize exact_library \<lparr>ncols = 3, rows = [ [Fin 0, Fin 0, Fin 0] ]\<rparr>)
     = [ [NaN, NaN, NaN] ]
   \<and> rows (normalize exact_library \<lparr>ncols = 3, rows = [ [Fin 0, Fin 0, Fin 0] ]\<rparr>)
     \<noteq> [ [Fin 0, Fin 0, Fin 0] ]"
  by (simp add: normalize_def normalize_row_def exact_library_def simple_library_def seq_dot_def signed_inf_def)

text \<open>
  Claim C2, amended.  \<open>normalize\<close> divides every row by its norm without a guard.  In a
  row whose norm, as a float32, is exactly zero, every entry that is zero as a float32
  becomes NaN, the value of \<open>0 / 0\<close>; so a row of zeros becomes a row of NaN of the same
  length, as \<open>[0, 0, 0]\<close> does.
\<close>

theorem normalize_zero_norm_row:
  assumes "i < length (rows E)"
  shows "(astype_float32 (round_float32 L) (np_norm L (rows E ! i)) = Fin 0 \<longrightarrow>
            (\<forall>k<length (rows E ! i).
               astype_float32 (round_float32 L) (rows E ! i ! k) = Fin 0
               \<longrightarrow> rows (normalize L E) ! i ! k = NaN))
       \<and> (zeros_ok L \<and> (\<forall>x\<in>set (rows E ! i). x = Fin 0) \<longrightarrow>
            rows (normalize L E) ! i = replicate (length (rows E ! i)) NaN)"
proof (intro conjI impI allI)
  have row: "rows (normalize L E) ! i = normalize_row L (rows E ! i)"
    using assms by (simp add: normalize_def)
  {
    fix k
    assume z: "astype_float32 (round_float32 L) (np_norm L (rows E ! i)) = Fin 0"
      and k: "k < length (rows E ! i)"
      and e: "astype_float32 (round_float32 L) (rows E ! i ! k) = Fin 0"
    show "rows (normalize L E) ! i ! k = NaN"
      using k by (simp add: row normalize_row_def z e signed_inf_def)
  }
  {
    assume a: "zeros_ok L \<and> (\<forall>x\<in>set (rows E ! i). x = Fin 0)"
    then have n: "np_norm L (rows E ! i) = Fin 0" and r: "round_float32 L 0 = Fin 0"
      by (simp_all add: zeros_ok_def)
    have "true_divide (round_float32 L)
                (astype_float32 (round_float32 L) x)
                (astype_float32 (round_float32 L) (Fin 0)) = NaN"
      if "x \<in> set (rows E ! i)" for x
    proof -
      from a that have "x = Fin 0" by blast
      then show ?thesis by (simp add: r signed_inf_def)
    qed
    then have "map (\<lambda>x. true_divide (round_float32 L)
                (astype_float32 (round_float32 L) x)
                (astype_float32 (round_float32 L) (Fin 0))) (rows E ! i)
          = map (\<lambda>x. NaN) (rows E ! i)"
      by (intro map_cong) simp_all
    then show "rows (normalize L E) ! i = replicate (length (rows E ! i)) NaN"
      by (simp add: row normalize_row_def n map_replicate_const)
  }
qed

text \<open>The second row of a two-row matrix is a row of zeros.\<close>

theorem normalize_zero_norm_row_witness:
  "(1::nat) < length (rows \<lparr>ncols = 2, rows = [ [Fin 3, Fin 4], [Fin 0, Fin 0] ]\<rparr>)
   \<and> rows \<lparr>ncols = 2, rows = [ [Fin 3, Fin 4], [Fin 0, Fin 0] ]\<rparr> ! 1 = [Fin 0, Fin 0]
   \<and> rows (normalize exact_library \<lparr>ncols = 2, rows = [ [Fin 3, Fin 4], [Fin 0, Fin 0] ]\<rparr>) ! 1
       = [NaN, NaN]"
proof -
  let ?E = "\<lparr>ncols = 2, rows = [ [Fin 3, Fin 4], [Fin 0, Fin 0] ]\<rparr>"
  have h: "(1::nat) < length (rows ?E)" by simp
  have z: "zeros_ok exact_library" by (rule zeros_ok_exact)
  have a: "\<forall>x\<in>set (rows ?E ! 1). x = Fin 0" by simp
  from normalize_zero_norm_row [OF h, of exact_library] z a
  have "rows (normalize exact_library ?E) ! 1 = replicate (length (rows ?E ! 1)) NaN"
    by blast
  then have "rows (normalize exact_library ?E) ! 1 = [NaN, NaN]"
    by (simp add: numeral_2_eq_2)
  with h show ?thesis by simp
qed

text \<open>
  Claim C3, as stated, fails: nothing clamps \<open>n\<close>.  Asking the three-word store for
  four words raises StopIteration.
\<close>

theorem closest_to_vector_no_clamp_counterexample:
  "closest_to_vector exact_library example_store [Fin 1, Fin 0] 4 = Inl StopIteration
   \<and> closest_to_vector exact_library example_store [Fin 1, Fin 0] 4
       \<noteq> Inr [''cat'', ''dog'', ''car'']"
  by (simp add: run_defs example_store_def eval_nat_numeral)

text \<open>
  Claim C3, amended.  For a store with one row per word (\<open>V\<close> words), a query with one
  entry per column and \<open>n > V\<close>, \<open>closest_to_vector\<close> raises StopIteration and returns no
  words.  This holds whatever \<open>np.dot\<close> computes and however \<open>np.argsort\<close> orders equal
  scores.
\<close>

theorem closest_to_vector_stop_iteration:
  assumes "ranking_ok L"
    and "wf_store S"
    and "length v = ncols (normalized_embeddings S)"
    and "int (length (english_words S)) < n"
  shows "closest_to_vector L S v n = Inl StopIteration"
proof -
  have rk: "ranking L S v
      = Inr (rev (np_argsort L (np_dot_matrix L (rows (normalized_embeddings S)) v)))"
    by (rule ranking_Inr [OF assms(3)])
  have len: "length (rows (normalized_embeddings S)) = length (english_words S)"
    using assms(2) by (simp add: wf_store_def)
  have "length (english_words S) < nat n" using assms(4) by simp
  with assms(1) rk len show ?thesis by (rule closest_stop)
qed

text \<open>Asking the twelve-word store for thirteen words.\<close>

theorem closest_to_vector_stop_iteration_witness:
  "wf_store family_store
   \<and> length [Fin 0, Fin 1, Fin 0] = ncols (normalized_embeddings family_store)
   \<and> int (length (english_words family_store)) < 13
   \<and> closest_to_vector exact_library family_store [Fin 0, Fin 1, Fin 0] 13 = Inl StopIteration"
proof -
  have h0: "ranking_ok exact_library" by (rule ranking_ok_exact)
  have h1: "wf_store family_store" by (rule wf_family)
  have h2: "length [Fin 0, Fin 1, Fin 0] = ncols (normalized_embeddings family_store)"
    by (simp add: family_store_def)
  have h3: "int (length (english_words family_store)) < 13"
    by (simp add: family_store_def)
  show ?thesis
    using closest_to_vector_stop_iteration [OF h0 h1 h2 h3] h1 h2 h3 by simp
qed

text \<open>
  Claim C4, as stated, fails: against the query \<open>[1, 1]\<close> cat (row 0) and car (row 2)
  both score 1, and with a sort that leaves equal scores in row order car is returned
  before cat.
\<close>

theorem ties_vocabulary_order_counterexample:
  "score_at exact_library example_store [Fin 1, Fin 1] 0
     = score_at exact_library example_store [Fin 1, Fin 1] 2
   \<and> closest_to_vector exact_library example_store [Fin 1, Fin 1] 3
       = Inr [''dog'', ''car'', ''cat'']"
  by (simp add: run_defs example_store_def eval_nat_numeral)

text \<open>
  Claim C4, amended.  \<open>closest_to_vector\<close> has no tie-break of its own: it returns the
  first \<open>n\<close> words of the reversal of \<open>np.argsort\<close>.  Two rows with exactly equal scores
  are therefore returned in the reverse of the order in which \<open>np.argsort\<close> lists them,
  which need not be the vocabulary order.
\<close>

theorem ties_reverse_argsort_order:
  assumes "ranking_ok L"
    and "wf_store S"
    and "length v = ncols (normalized_embeddings S)"
    and "0 \<le> n" and "n \<le> int (length (english_words S))"
  shows "\<exists>best. ranking L S v = Inr best
           \<and> closest_to_vector L S v n
               = Inr (map (\<lambda>i. english_words S ! i) (take (nat n) best))
           \<and> (\<forall>i j. i < length (english_words S) \<and> j < length (english_words S)
                    \<and> i \<noteq> j \<and> score_at L S v i = score_at L S v j
                  \<longrightarrow> (listed_before best i j
                       \<longleftrightarrow> listed_before
                             (np_argsort L (np_dot_matrix L (rows (normalized_embeddings S)) v))
                             j i))"
proof -
  let ?as = "np_argsort L (np_dot_matrix L (rows (normalized_embeddings S)) v)"
  have rk: "ranking L S v = Inr (rev ?as)"
    by (rule ranking_Inr [OF assms(3)])
  have len: "length (rows (normalized_embeddings S)) = length (english_words S)"
    using assms(2) by (simp add: wf_store_def)
  have n: "nat n \<le> length (english_words S)" using assms(4,5) by simp
  have 1: "closest_to_vector L S v n
             = Inr (map (\<lambda>i. english_words S ! i) (take (nat n) (rev ?as)))"
    by (rule closest_Inr [OF assms(1) rk len n])
  have "distinct ?as" using assms(1) by (simp add: ranking_ok_def)
  then have 2: "listed_before (rev ?as) i j \<longleftrightarrow> listed_before ?as j i" for i j
    by (rule listed_before_rev)
  from rk 1 2 show ?thesis by blast
qed

text \<open>
  In the three-word store cat and car tie against \<open>[1, 1]\<close>; the insertion sort lists
  cat before car, so car is returned before cat.
\<close>

theorem ties_reverse_argsort_order_witness:
  "wf_store example_store
   \<and> length [Fin 1, Fin 1] = ncols (normalized_embeddings example_store)
   \<and> (3::int) \<le> int (length (english_words example_store))
   \<and> score_at exact_library example_store [Fin 1, Fin 1] 2
       = score_at exact_library example_store [Fin 1, Fin 1] 0
   \<and> listed_before
        (np_argsort exact_library
           (np_dot_matrix exact_library (rows (normalized_embeddings example_store)) [Fin 1, Fin 1]))
        0 2
   \<and> (\<exists>best. ranking exact_library example_store [Fin 1, Fin 1] = Inr best
          \<and> listed_before best 2 0)"
proof -
  have h0: "ranking_ok exact_library" by (rule ranking_ok_exact)
  have h1: "wf_store example_store" by (rule wf_example)
  have h2: "length [Fin 1, Fin 1] = ncols (normalized_embeddings example_store)"
    by (simp add: example_store_def)
  have h3: "(0::int) \<le> 3" by simp
  have h4: "(3::int) \<le> int (length (english_words example_store))"
    by (simp add: example_store_def)
  have tie: "score_at exact_library example_store [Fin 1, Fin 1] 2
               = score_at exact_library example_store [Fin 1, Fin 1] 0"
    by (simp add: run_defs example_store_def)
  have as: "np_argsort exact_library
           (np_dot_matrix exact_library (rows (normalized_embeddings example_store)) [Fin 1, Fin 1])
         = [0, 2, 1]"
    by (simp add: run_defs example_store_def)
  have "(1::nat) < length [0, 2, 1::nat] \<and> (0::nat) < 1
        \<and> [0, 2, 1::nat] ! 0 = 0 \<and> [0, 2, 1::nat] ! 1 = 2"
    by simp
  then have "listed_before [0, 2, 1] 0 2"
    unfolding listed_before_def by blast
  then have lb: "listed_before
        (np_argsort exact_library
           (np_dot_matrix exact_library (rows (normalized_embeddings example_store)) [Fin 1, Fin 1]))
        0 2"
    by (simp only: as)
  have l: "(2::nat) < length (english_words example_store)
           \<and> (0::nat) < length (english_words example_store) \<and> (2::nat) \<noteq> 0"
    by (simp add: example_store_def)
  from ties_reverse_argsort_order [OF h0 h1 h2 h3 h4] tie lb l
  have "\<exists>best. ranking exact_library example_store [Fin 1, Fin 1] = Inr best
          \<and> listed_before best 2 0"
    by blast
  with h1 h2 h4 tie lb show ?thesis by blast
qed

text \<open>
  Claim C5.  For words \<open>a\<close>, \<open>b\<close>, \<open>c\<close> present in the index of a store with one row per
  word, \<open>solve_analogy a b c\<close> is \<open>closest_to_vector\<close> with \<open>n = 10\<close> applied to the vector
  whose entry \<open>k\<close> is \<open>(embedding b)[k] - (embedding a)[k] + (embedding c)[k]\<close>.  Nothing
  is filtered: with at least ten words the result is the words of the first ten rows of
  the ranking, and whichever of \<open>a\<close>, \<open>b\<close>, \<open>c\<close> has its row among them is in the result.
\<close>

theorem solve_analogy_delegates:
  assumes "wf_store S"
    and "index (english_words S) a = Some ia"
    and "index (english_words S) b = Some ib"
    and "index (english_words S) c = Some ic"
  shows "\<exists>q. length q = ncols (normalized_embeddings S)
           \<and> (\<forall>k<ncols (normalized_embeddings S).
                 q ! k = fadd (round_float32 L)
                           (fsub (round_float32 L)
                              (rows (normalized_embeddings S) ! ib ! k)
                              (rows (normalized_embeddings S) ! ia ! k))
                           (rows (normalized_embeddings S) ! ic ! k))
           \<and> solve_analogy L S a b c = closest_to_vector L S q 10
           \<and> (ranking_ok L \<and> 10 \<le> length (english_words S) \<longrightarrow>
                (\<exists>best. ranking L S q = Inr best
                   \<and> solve_analogy L S a b c
                       = Inr (map (\<lambda>i. english_words S ! i) (take 10 best))
                   \<and> (ia \<in> set (take 10 best) \<longrightarrow>
                        a \<in> set (map (\<lambda>i. english_words S ! i) (take 10 best)))
                   \<and> (ib \<in> set (take 10 best) \<longrightarrow>
                        b \<in> set (map (\<lambda>i. english_words S ! i) (take 10 best)))
                   \<and> (ic \<in> set (take 10 best) \<longrightarrow>
                        c \<in> set (map (\<lambda>i. english_words S ! i) (take 10 best)))))"
proof -
  let ?M = "normalized_embeddings S"
  let ?q = "vadd L (vsub L (rows ?M ! ib) (rows ?M ! ia)) (rows ?M ! ic)"
  note ia = index_bound [OF assms(2)] and ib = index_bound [OF assms(3)]
    and ic = index_bound [OF assms(4)]
  have la: "length (rows ?M ! ia) = ncols ?M" using row_length [OF assms(1)] ia by simp
  have lb: "length (rows ?M ! ib) = ncols ?M" using row_length [OF assms(1)] ib by simp
  have lc: "length (rows ?M ! ic) = ncols ?M" using row_length [OF assms(1)] ic by simp
  have 1: "length ?q = ncols ?M"
    by (simp add: vadd_def vsub_def la lb lc)
  have 2: "\<forall>k<ncols ?M.
             ?q ! k = fadd (round_float32 L)
                        (fsub (round_float32 L) (rows ?M ! ib ! k) (rows ?M ! ia ! k))
                        (rows ?M ! ic ! k)"
    by (simp add: vadd_def vsub_def la lb lc)
  have 3: "solve_analogy L S a b c = closest_to_vector L S ?q 10"
    by (simp add: solve_analogy_def lookup_row_present [OF assms(1)] assms(2,3,4))
  have 4: "ranking_ok L \<and> 10 \<le> length (english_words S) \<longrightarrow>
                (\<exists>best. ranking L S ?q = Inr best
                   \<and> solve_analogy L S a b c
                       = Inr (map (\<lambda>i. english_words S ! i) (take 10 best))
                   \<and> (ia \<in> set (take 10 best) \<longrightarrow>
                        a \<in> set (map (\<lambda>i. english_words S ! i) (take 10 best)))
                   \<and> (ib \<in> set (take 10 best) \<longrightarrow>
                        b \<in> set (map (\<lambda>i. english_words S ! i) (take 10 best)))
                   \<and> (ic \<in> set (take 10 best) \<longrightarrow>
                        c \<in> set (map (\<lambda>i. english_words S ! i) (take 10 best))))"
  proof
    assume h: "ranking_ok L \<and> 10 \<le> length (english_words S)"
    let ?best = "rev (np_argsort L (np_dot_matrix L (rows ?M) ?q))"
    have rk: "ranking L S ?q = Inr ?best" by (rule ranking_Inr [OF 1])
    have len: "length (rows ?M) = length (english_words S)"
      using assms(1) by (simp add: wf_store_def)
    have "nat 10 \<le> length (english_words S)" using h by simp
    with h rk len
    have "closest_to_vector L S ?q 10
            = Inr (map (\<lambda>i. english_words S ! i) (take (nat 10) ?best))"
      by (intro closest_Inr) simp_all
    with 3 have s: "solve_analogy L S a b c
            = Inr (map (\<lambda>i. english_words S ! i) (take 10 ?best))"
      by simp
    have m: "j \<in> set (take 10 ?best) \<Longrightarrow> english_words S ! j = w
             \<Longrightarrow> w \<in> set (map (\<lambda>i. english_words S ! i) (take 10 ?best))" for j w
      by auto
    from rk s m [of ia a] m [of ib b] m [of ic c] ia ib ic
    show "\<exists>best. ranking L S ?q = Inr best
                   \<and> solve_analogy L S a b c
                       = Inr (map (\<lambda>i. english_words S ! i) (take 10 best))
                   \<and> (ia \<in> set (take 10 best) \<longrightarrow>
                        a \<in> set (map (\<lambda>i. english_words S ! i) (take 10 best)))
                   \<and> (ib \<in> set (take 10 best) \<longrightarrow>
                        b \<in> set (map (\<lambda>i. english_words S ! i) (take 10 best)))
                   \<and> (ic \<in> set (take 10 best) \<longrightarrow>
                        c \<in> set (map (\<lambda>i. english_words S ! i) (take 10 best)))"
      by blast
  qed
  show ?thesis by (intro exI [of _ ?q] conjI 1 2 3 4)
qed

text \<open>
  In the twelve-word store, \<open>solve_analogy man king woman\<close> ranks with the query
  \<open>king - man + woman = [0, 1, 2]\<close>.  The ten words returned include the three input
  words.  Without \<open>+ woman\<close> the query would be \<open>[0, 0, 2]\<close>, and other words would be
  returned.
\<close>

theorem solve_analogy_delegates_witness:
  "wf_store family_store
   \<and> index (english_words family_store) ''man'' = Some 0
   \<and> index (english_words family_store) ''king'' = Some 2
   \<and> index (english_words family_store) ''woman'' = Some 1
   \<and> 10 \<le> length (english_words family_store)
   \<and> solve_analogy exact_library family_store ''man'' ''king'' ''woman''
       = closest_to_vector exact_library family_store [Fin 0, Fin 1, Fin 2] 10
   \<and> solve_analogy exact_library family_store ''man'' ''king'' ''woman''
       = Inr [''queen'', ''king'', ''princess'', ''prince'', ''girl'', ''wife'', ''woman'',
              ''boy'', ''husband'', ''man'']
   \<and> closest_to_vector exact_library family_store [Fin 0, Fin 0, Fin 2] 10
       = Inr [''queen'', ''king'', ''princess'', ''prince'', ''girl'', ''boy'', ''wife'',
              ''husband'', ''dog'', ''woman'']"
proof -
  have h1: "wf_store family_store" by (rule wf_family)
  have h2: "index (english_words family_store) ''man'' = Some 0"
    by (simp add: index_def family_store_def)
  have h3: "index (english_words family_store) ''king'' = Some 2"
    by (simp add: index_def family_store_def)
  have h4: "index (english_words family_store) ''woman'' = Some 1"
    by (simp add: index_def family_store_def)
  have h5: "ranking_ok exact_library" by (rule ranking_ok_exact)
  have h6: "10 \<le> length (english_words family_store)" by (simp add: family_store_def)
  from solve_analogy_delegates [OF h1 h2 h3 h4, of exact_library]
  obtain q where q: "length q = ncols (normalized_embeddings family_store)"
    and e: "\<forall>k<ncols (normalized_embeddings family_store).
              q ! k = fadd (round_float32 exact_library)
                        (fsub (round_float32 exact_library)
                           (rows (normalized_embeddings family_store) ! 2 ! k)
                           (rows (normalized_embeddings family_store) ! 0 ! k))
                        (rows (normalized_embeddings family_store) ! 1 ! k)"
    and s: "solve_analogy exact_library family_store ''man'' ''king'' ''woman''
              = closest_to_vector exact_library family_store q 10"
    by blast
  have lq: "length q = 3" using q by (simp add: family_store_def)
  have "q ! 0 = Fin 0 \<and> q ! 1 = Fin 1 \<and> q ! 2 = Fin 2"
    using e by (simp add: family_store_def exact_library_def simple_library_def fsub_def)
  then have "q = [Fin 0, Fin 1, Fin 2]"
    using lq by (simp add: list_eq_iff_nth_eq numeral_3_eq_3 numeral_2_eq_2 less_Suc_eq)
  with s have d: "solve_analogy exact_library family_store ''man'' ''king'' ''woman''
       = closest_to_vector exact_library family_store [Fin 0, Fin 1, Fin 2] 10"
    by simp
  have c1: "closest_to_vector exact_library family_store [Fin 0, Fin 1, Fin 2] 10
       = Inr [''queen'', ''king'', ''princess'', ''prince'', ''girl'', ''wife'', ''woman'',
              ''boy'', ''husband'', ''man'']"
    by (simp add: run_defs family_store_def eval_nat_numeral)
  have c2: "closest_to_vector exact_library family_store [Fin 0, Fin 0, Fin 2] 10
       = Inr [''queen'', ''king'', ''princess'', ''prince'', ''girl'', ''boy'', ''wife'',
              ''husband'', ''dog'', ''woman'']"
    by (simp add: run_defs family_store_def eval_nat_numeral)
  from h1 h2 h3 h4 h6 d c1 c2 show ?thesis by simp
qed




text \<open>
  Claim C7.  Let \<open>w\<close> be a word of a store with one row per word, at row \<open>i\<close> of the
  index, and let the scores be those that the ranking computes against the vector of
  \<open>w\<close>.  If the score of row \<open>i\<close> is strictly greater than the score of every other row,
  then \<open>most_similar w 1\<close>, which is \<open>closest_to_vector\<close> on the vector of \<open>w\<close> with
  \<open>n = 1\<close>, returns \<open>w\<close> alone.
\<close>

theorem most_similar_self:
  assumes "ranking_ok L"
    and "wf_store S"
    and "index (english_words S) w = Some i"
    and "\<forall>j<length (english_words S). j \<noteq> i
           \<longrightarrow> fl_gt (score_at L S (rows (normalized_embeddings S) ! i) i)
                      (score_at L S (rows (normalized_embeddings S) ! i) j)"
  shows "most_similar L S w 1 = Inr [w]
         \<and> closest_to_vector L S (rows (normalized_embeddings S) ! i) 1 = Inr [w]"
proof -
  let ?v = "rows (normalized_embeddings S) ! i"
  have len: "length (rows (normalized_embeddings S)) = length (english_words S)"
    using assms(2) by (simp add: wf_store_def)
  have i: "i < length (english_words S)" "english_words S ! i = w"
    using index_bound [OF assms(3)] by simp_all
  have lv: "length ?v = ncols (normalized_embeddings S)"
    by (rule row_length [OF assms(2) i(1)])
  note rk = ranking_Inr [OF lv, of L]
  obtain rest where best:
    "rev (np_argsort L (np_dot_matrix L (rows (normalized_embeddings S)) ?v)) = i # rest"
    using ranking_hd [OF assms(1) rk] i(1) assms(4) len by auto
  have c: "closest_to_vector L S ?v 1 = Inr [w]"
    using i by (simp add: closest_to_vector_def rk best)
  moreover have "most_similar L S w 1 = closest_to_vector L S ?v 1"
    by (simp add: most_similar_def lookup_row_present [OF assms(2,3)])
  ultimately show ?thesis by simp
qed

text \<open>
  In the three-word store the vector of dog scores 13/16 against itself, 3/4 against cat
  and 1/2 against car.
\<close>

theorem most_similar_self_witness:
  "wf_store example_store
   \<and> index (english_words example_store) ''dog'' = Some 1
   \<and> score_at exact_library example_store [Fin (3/4), Fin (1/2)] 1 = Fin (13/16)
   \<and> score_at exact_library example_store [Fin (3/4), Fin (1/2)] 0 = Fin (3/4)
   \<and> score_at exact_library example_store [Fin (3/4), Fin (1/2)] 2 = Fin (1/2)
   \<and> most_similar exact_library example_store ''dog'' 1 = Inr [''dog'']"
proof -
  have h0: "ranking_ok exact_library" by (rule ranking_ok_exact)
  have h1: "wf_store example_store" by (rule wf_example)
  have h2: "index (english_words example_store) ''dog'' = Some 1"
    by (simp add: index_def example_store_def)
  have r: "rows (normalized_embeddings example_store) ! 1 = [Fin (3/4), Fin (1/2)]"
    by (simp add: example_store_def)
  have s1: "score_at exact_library example_store [Fin (3/4), Fin (1/2)] 1 = Fin (13/16)"
    by (simp add: run_defs example_store_def)
  have s0: "score_at exact_library example_store [Fin (3/4), Fin (1/2)] 0 = Fin (3/4)"
    by (simp add: run_defs example_store_def)
  have s2: "score_at exact_library example_store [Fin (3/4), Fin (1/2)] (Suc (Suc 0)) = Fin (1/2)"
    by (simp add: run_defs example_store_def)
  have l: "length (english_words example_store) = 3" by (simp add: example_store_def)
  have h3: "\<forall>j<length (english_words example_store). j \<noteq> 1
           \<longrightarrow> fl_gt (score_at exact_library example_store
                         (rows (normalized_embeddings example_store) ! 1) 1)
                      (score_at exact_library example_store
                         (rows (normalized_embeddings example_store) ! 1) j)"
    unfolding r l using s0 s1 s2 by (simp add: numeral_3_eq_3 less_Suc_eq fl_gt_def)
  from most_similar_self [OF h0 h1 h2 h3]
  have "most_similar exact_library example_store ''dog'' 1 = Inr [''dog'']" by (rule conjunct1)
  with h1 h2 s0 s1 s2 show ?thesis by (simp add: numeral_2_eq_2)
qed

text \<open>
  Claim C8, as stated, fails: the casts to float32 can underflow.  The raw row
  \<open>[2^-200, 0]\<close> has the nonzero norm \<open>2^-200\<close>, but as float32 its entries and its norm are
  zero, the normalised row is \<open>[NaN, NaN]\<close>, and the score of the word against itself is
  NaN.
\<close>

theorem self_similarity_underflow_counterexample:
  "np_norm ranged_library [Fin (1 / 2 ^ 200), Fin 0] = Fin (1 / 2 ^ 200)
   \<and> similarity_score ranged_library
         (build_store ranged_library [''tiny'']
            \<lparr>ncols = 2, rows = [ [Fin (1 / 2 ^ 200), Fin 0] ]\<rparr>)
         ''tiny'' ''tiny'' = Inr NaN"
proof -
  define a :: real where "a = 1 / 2 ^ 200"
  have a: "0 \<le> a" "a * 2 ^ 150 \<le> 1" by (simp_all add: a_def)
  have nv: "np_norm ranged_library [Fin a, Fin 0] = Fin a"
    unfolding ranged_library_def by (rule norm_axis [OF a(1)])
  have nr: "normalize_row ranged_library [Fin a, Fin 0] = [NaN, NaN]"
    by (rule underflow_row [OF a])
  have d: "np_dot ranged_library [NaN, NaN] [NaN, NaN] = NaN"
    by (simp add: ranged_library_def simple_library_def seq_dot_def)
  have "similarity_score ranged_library
         (build_store ranged_library [''tiny''] \<lparr>ncols = 2, rows = [ [Fin a, Fin 0] ]\<rparr>)
         ''tiny'' ''tiny'' = Inr NaN"
    by (simp add: similarity_score_def lookup_row_def index_def build_store_def normalize_def
        nr d)
  with nv show ?thesis unfolding a_def by simp
qed

text \<open>
  Claim C8, amended.  Build the store from a word list and a raw matrix with one row per
  word.  Let \<open>w\<close> be a word of the index whose raw row is finite and has a nonzero norm,
  and let no step of the normalisation of that row leave the normal range of float32:
  not the cast of an entry or of the norm, not a quotient, not the square of a
  normalised entry.  If rounding has a relative error of at most \<open>u\<close>, the norm of the
  row is computed with a relative error of at most \<open>u\<close>, and \<open>np.dot\<close> has a relative error
  of at most \<open>g\<close>, then \<open>similarity_score w w\<close> is a finite number between
  \<open>(1 - g) ((1 - u) / (1 + u))^4\<close> and \<open>(1 + g) ((1 + u) / (1 - u))^4\<close>: it is 1 within
  floating-point tolerance.
\<close>

theorem self_similarity_tolerance:
  assumes acc: "rounding_rel u L" "dot_rel d g L"
    and u: "0 \<le> u" "u \<le> 1/2" and g: "0 \<le> g" "g \<le> 1"
    and len: "length (rows E) = length ws" and idx: "index ws w = Some i"
    and row: "rows E ! i = map Fin xs" "length xs \<le> d"
    and nz: "sqrt (sum_list (map (\<lambda>x. x * x) xs)) \<noteq> 0"
    and norm: "np_norm L (rows E ! i) = Fin \<nu>"
              "\<bar>\<nu> - sqrt (sum_list (map (\<lambda>x. x * x) xs))\<bar>
                 \<le> u * sqrt (sum_list (map (\<lambda>x. x * x) xs))"
    and rng: "\<forall>x\<in>set xs. in_range x" "in_range \<nu>"
             "\<forall>x\<in>set xs. \<forall>b n. round_float32 L x = Fin b \<and> round_float32 L \<nu> = Fin n
                \<longrightarrow> in_range (b / n)"
             "\<forall>r. Fin r \<in> set (normalize_row L (rows E ! i)) \<longrightarrow> in_range (r * r)"
  shows "\<exists>c. similarity_score L (build_store L ws E) w w = Inr (Fin c)
           \<and> (1 - g) * ((1 - u) / (1 + u)) ^ 4 \<le> c
           \<and> c \<le> (1 + g) * ((1 + u) / (1 - u)) ^ 4"
proof -
  let ?rnd = "round_float32 L"
  let ?q = "sum_list (map (\<lambda>x. x * x) xs)"
  let ?N = "sqrt ?q"
  let ?lo = "((1 - u) / (1 + u)) ^ 2" and ?hi = "((1 + u) / (1 - u)) ^ 2"
  have q0: "0 \<le> ?q" by (rule sum_list_nonneg) auto
  then have N0: "0 < ?N" using nz by (simp add: less_le)
  have NN: "?N * ?N = ?q" using q0 by simp
  obtain n where n: "?rnd \<nu> = Fin n" "\<bar>n - \<nu>\<bar> \<le> u * \<bar>\<nu>\<bar>"
    using acc(1) rng(2) unfolding rounding_rel_def by blast
  let ?e = "\<lambda>x. true_divide ?rnd (astype_float32 ?rnd (Fin x)) (astype_float32 ?rnd (Fin \<nu>))"
  have entry: "\<exists>r. ?e x = Fin r \<and> ?lo * (\<bar>x\<bar> / ?N) \<le> \<bar>r\<bar> \<and> \<bar>r\<bar> \<le> ?hi * (\<bar>x\<bar> / ?N)"
    if x: "x \<in> set xs" for x
  proof -
    obtain b where b: "?rnd x = Fin b" "\<bar>b - x\<bar> \<le> u * \<bar>x\<bar>"
      using acc(1) rng(1) x unfolding rounding_rel_def by blast
    have "in_range (b / n)" using rng(3) x b(1) n(1) by blast
    then obtain r where r: "?rnd (b / n) = Fin r" "\<bar>r - b / n\<bar> \<le> u * \<bar>b / n\<bar>"
      using acc(1) unfolding rounding_rel_def by blast
    note eb = entry_bounds [OF u N0 norm(2) n(2) b(2) r(2)]
    have "?e x = Fin r" using eb(1) b(1) n(1) r(1) by simp
    with eb(2,3) show ?thesis by blast
  qed
  define rs where "rs = map (\<lambda>x. fin_val (?e x)) xs"
  have nr: "normalize_row L (rows E ! i) = map Fin rs"
  proof -
    have "?e x = Fin (fin_val (?e x))" if "x \<in> set xs" for x
      using entry [OF that] by auto
    then have "map ?e xs = map (\<lambda>x. Fin (fin_val (?e x))) xs"
      by (intro map_cong) simp_all
    then show ?thesis
      by (simp add: normalize_row_def row(1) norm(1) [unfolded row(1)] rs_def comp_def)
  qed
  have sq: "?lo ^ 2 * (x * x / ?q) \<le> fin_val (?e x) * fin_val (?e x)
            \<and> fin_val (?e x) * fin_val (?e x) \<le> ?hi ^ 2 * (x * x / ?q)"
    if x: "x \<in> set xs" for x
  proof -
    obtain r where r: "?e x = Fin r" "?lo * (\<bar>x\<bar> / ?N) \<le> \<bar>r\<bar>" "\<bar>r\<bar> \<le> ?hi * (\<bar>x\<bar> / ?N)"
      using entry [OF x] by blast
    have y: "0 \<le> \<bar>x\<bar> / ?N" using N0 by simp
    have yy: "(\<bar>x\<bar> / ?N) * (\<bar>x\<bar> / ?N) = x * x / ?q"
      by (simp only: times_divide_times_eq NN abs_mult_self_eq)
    have l0: "0 \<le> ?lo" by simp
    have fv: "fin_val (?e x) = r" by (simp only: r(1) fin_val.simps)
    show ?thesis
      using square_bounds [OF l0 y r(2,3)] unfolding yy fv by blast
  qed
  let ?S = "sum_list (map (\<lambda>r. r * r) rs)"
  have S: "?S = sum_list (map (\<lambda>x. fin_val (?e x) * fin_val (?e x)) xs)"
    by (simp add: rs_def comp_def)
  have one: "sum_list (map (\<lambda>x. x * x / ?q) xs) = 1"
    using N0 q0 nz by (simp add: sum_list_div_const)
  have Slo: "?lo ^ 2 \<le> ?S" and Shi: "?S \<le> ?hi ^ 2"
    using sum_list_bounds [of xs "?lo ^ 2" "\<lambda>x. x * x / ?q"
        "\<lambda>x. fin_val (?e x) * fin_val (?e x)" "?hi ^ 2"] sq
    by (simp_all add: S one)
  have lo4: "?lo ^ 2 = ((1 - u) / (1 + u)) ^ 4" and hi4: "?hi ^ 2 = ((1 + u) / (1 - u)) ^ 4"
    by simp_all
  have m2: "map2 (\<lambda>a b. a * b) rs rs = map (\<lambda>r. r * r) rs"
    and m2a: "map2 (\<lambda>a b. \<bar>a * b\<bar>) rs rs = map (\<lambda>r. r * r) rs"
    by (simp_all add: zip_same_conv_map)
  have pre: "length rs = length rs \<and> length rs \<le> d
         \<and> (\<forall>p\<in>set (zip rs rs). in_range (fst p * snd p))
         \<and> sum_list (map2 (\<lambda>a b. \<bar>a * b\<bar>) rs rs) \<le> 2 ^ 127"
  proof (intro conjI)
    show "length rs \<le> d" using row(2) by (simp add: rs_def)
    show "\<forall>p\<in>set (zip rs rs). in_range (fst p * snd p)"
    proof
      fix p assume "p \<in> set (zip rs rs)"
      then obtain r where "r \<in> set rs" "p = (r, r)"
        by (auto simp: zip_same_conv_map)
      moreover have "Fin r \<in> set (normalize_row L (rows E ! i))"
        using \<open>r \<in> set rs\<close> by (simp add: nr)
      ultimately show "in_range (fst p * snd p)" using rng(4) by simp
    qed
    have "?S \<le> 2 ^ 127" using Shi pow4_le_2_127 [OF u] by (simp only: hi4)
    then show "sum_list (map2 (\<lambda>a b. \<bar>a * b\<bar>) rs rs) \<le> 2 ^ 127" by (simp only: m2a)
  qed simp
  from acc(2) [unfolded dot_rel_def, rule_format, OF pre]
  obtain c where c0: "np_dot L (map Fin rs) (map Fin rs) = Fin c"
    "\<bar>c - sum_list (map2 (\<lambda>a b. a * b) rs rs)\<bar> \<le> g * sum_list (map2 (\<lambda>a b. \<bar>a * b\<bar>) rs rs)"
    by blast
  note c = c0(1) c0(2) [unfolded m2 m2a]
  have S0: "0 \<le> ?S" by (rule sum_list_nonneg) auto
  have "(1 - g) * ?S \<le> c" "c \<le> (1 + g) * ?S"
    using c(2) by (simp_all add: abs_le_iff algebra_simps)
  moreover have "(1 - g) * ?lo ^ 2 \<le> (1 - g) * ?S"
    using Slo g by (intro mult_left_mono) simp_all
  moreover have "(1 + g) * ?S \<le> (1 + g) * ?hi ^ 2"
    using Shi g by (intro mult_left_mono) simp_all
  ultimately have cb: "(1 - g) * ((1 - u) / (1 + u)) ^ 4 \<le> c"
    "c \<le> (1 + g) * ((1 + u) / (1 - u)) ^ 4"
    unfolding lo4 hi4 by simp_all
  have i: "i < length ws" using index_bound [OF idx] by simp
  then have "lookup_row (build_store L ws E) w = Inr (normalize_row L (rows E ! i))"
    using len idx by (simp add: lookup_row_def build_store_def normalize_def)
  then have "similarity_score L (build_store L ws E) w w = Inr (Fin c)"
    by (simp add: similarity_score_def nr c(1))
  with cb show ?thesis by blast
qed


text \<open>
  The raw row \<open>[1, 1, 1, 1]\<close> has norm 2; its normalised entries are 1/2, their squares
  1/4, and the score is 1.  The library that does not round meets any tolerance.
\<close>

theorem self_similarity_tolerance_witness:
  "index [''cat''] ''cat'' = Some 0
   \<and> np_norm exact_library [Fin 1, Fin 1, Fin 1, Fin 1] = Fin 2
   \<and> normalize_row exact_library [Fin 1, Fin 1, Fin 1, Fin 1]
       = [Fin (1/2), Fin (1/2), Fin (1/2), Fin (1/2)]
   \<and> (\<exists>c. similarity_score exact_library
              (build_store exact_library [''cat'']
                 \<lparr>ncols = 4, rows = [ [Fin 1, Fin 1, Fin 1, Fin 1] ]\<rparr>)
              ''cat'' ''cat'' = Inr (Fin c)
          \<and> (1 - 1 / 2 ^ 22) * ((1 - 1 / 2 ^ 24) / (1 + 1 / 2 ^ 24)) ^ 4 \<le> c
          \<and> c \<le> (1 + 1 / 2 ^ 22) * ((1 + 1 / 2 ^ 24) / (1 - 1 / 2 ^ 24)) ^ 4)"
proof -
  let ?E = "\<lparr>ncols = 4, rows = [ [Fin 1, Fin 1, Fin 1, Fin 1] ]\<rparr>"
  let ?xs = "[1, 1, 1, 1::real]"
  have a1: "rounding_rel (1 / 2 ^ 24) exact_library" by (rule rounding_rel_exact) simp
  have a2: "dot_rel 4 (1 / 2 ^ 22) exact_library" by (rule dot_rel_exact) simp
  have u: "(0::real) \<le> 1 / 2 ^ 24" "(1::real) / 2 ^ 24 \<le> 1 / 2" by simp_all
  have g: "(0::real) \<le> 1 / 2 ^ 22" "(1::real) / 2 ^ 22 \<le> 1" by simp_all
  have len: "length (rows ?E) = length [''cat'']" by simp
  have idx: "index [''cat''] ''cat'' = Some 0" by (simp add: index_def)
  have row: "rows ?E ! 0 = map Fin ?xs" "length ?xs \<le> 4" by simp_all
  have q: "sum_list (map (\<lambda>x. x * x) ?xs) = 4" by simp
  have nz: "sqrt (sum_list (map (\<lambda>x. x * x) ?xs)) \<noteq> 0" by (simp only: q) simp
  have nv: "np_norm exact_library [Fin 1, Fin 1, Fin 1, Fin 1] = Fin 2"
    by (simp add: exact_library_def simple_library_def seq_dot_def)
  have norm: "np_norm exact_library (rows ?E ! 0) = Fin 2"
    "\<bar>2 - sqrt (sum_list (map (\<lambda>x. x * x) ?xs))\<bar>
       \<le> 1 / 2 ^ 24 * sqrt (sum_list (map (\<lambda>x. x * x) ?xs))"
    using nv by (simp_all only: q) simp_all
  have nr: "normalize_row exact_library [Fin 1, Fin 1, Fin 1, Fin 1]
       = [Fin (1/2), Fin (1/2), Fin (1/2), Fin (1/2)]"
    by (simp add: normalize_row_def nv) (simp add: exact_library_def simple_library_def)
  have r1: "\<forall>x\<in>set ?xs. in_range x" by (simp add: in_range_def)
  have r2: "in_range 2" by (simp add: in_range_def)
  have r3: "\<forall>x\<in>set ?xs. \<forall>b n. round_float32 exact_library x = Fin b
               \<and> round_float32 exact_library 2 = Fin n \<longrightarrow> in_range (b / n)"
    by (auto simp: exact_library_def simple_library_def in_range_def)
  have r4: "\<forall>r. Fin r \<in> set (normalize_row exact_library (rows ?E ! 0)) \<longrightarrow> in_range (r * r)"
  proof (intro allI impI)
    fix r assume "Fin r \<in> set (normalize_row exact_library (rows ?E ! 0))"
    then have "r = 1/2" using nr by auto
    moreover have "in_range ((1/2) * (1/2))" by (simp add: in_range_def)
    ultimately show "in_range (r * r)" by (simp only:)
  qed
  from self_similarity_tolerance [OF a1 a2 u g len idx row nz norm r1 r2 r3 r4]
  have "\<exists>c. similarity_score exact_library (build_store exact_library [''cat''] ?E)
              ''cat'' ''cat'' = Inr (Fin c)
          \<and> (1 - 1 / 2 ^ 22) * ((1 - 1 / 2 ^ 24) / (1 + 1 / 2 ^ 24)) ^ 4 \<le> c
          \<and> c \<le> (1 + 1 / 2 ^ 22) * ((1 + 1 / 2 ^ 24) / (1 - 1 / 2 ^ 24)) ^ 4" .
  with idx nv nr show ?thesis by blast
qed

text \<open>
  Claim C9.  In a store with one row per word, a word \<open>w\<close> absent from the index makes
  every operation that looks it up raise KeyError for an absent word: \<open>similarity_score\<close>
  in either argument, \<open>most_similar\<close>, and \<open>solve_analogy\<close> in each of its three
  arguments.  No result is returned, whatever the library computes.
\<close>

theorem absent_word_raises:
  assumes "wf_store S" and "index (english_words S) w = None"
  shows "similarity_score L S w w2 = Inl (KeyError w)
       \<and> (\<exists>k. similarity_score L S w1 w = Inl (KeyError k) \<and> index (english_words S) k = None)
       \<and> most_similar L S w n = Inl (KeyError w)
       \<and> solve_analogy L S a1 w a2 = Inl (KeyError w)
       \<and> (\<exists>k. solve_analogy L S w b1 a2 = Inl (KeyError k) \<and> index (english_words S) k = None)
       \<and> (\<exists>k. solve_analogy L S a1 b1 w = Inl (KeyError k) \<and> index (english_words S) k = None)"
proof -
  note absent = lookup_row_absent [OF assms(2)]
  have 1: "similarity_score L S w w2 = Inl (KeyError w)"
    by (simp add: similarity_score_def absent)
  have 2: "\<exists>k. similarity_score L S w1 w = Inl (KeyError k) \<and> index (english_words S) k = None"
    using lookup_row_cases [OF assms(1), of w1] assms(2)
    by (auto simp: similarity_score_def absent)
  have 3: "most_similar L S w n = Inl (KeyError w)"
    by (simp add: most_similar_def absent)
  have 4: "solve_analogy L S a1 w a2 = Inl (KeyError w)"
    by (simp add: solve_analogy_def absent)
  have 5: "\<exists>k. solve_analogy L S w b1 a2 = Inl (KeyError k) \<and> index (english_words S) k = None"
    using lookup_row_cases [OF assms(1), of b1] assms(2)
    by (auto simp: solve_analogy_def absent)
  have 6: "\<exists>k. solve_analogy L S a1 b1 w = Inl (KeyError k) \<and> index (english_words S) k = None"
    using lookup_row_cases [OF assms(1), of b1] lookup_row_cases [OF assms(1), of a1] assms(2)
    by (auto simp: solve_analogy_def absent)
  from 1 2 3 4 5 6 show ?thesis by (intro conjI)
qed

text \<open>The three-word store has no bird.\<close>

theorem absent_word_raises_witness:
  "wf_store example_store
   \<and> index (english_words example_store) ''bird'' = None
   \<and> similarity_score exact_library example_store ''bird'' ''cat'' = Inl (KeyError ''bird'')
   \<and> similarity_score exact_library example_store ''cat'' ''bird'' = Inl (KeyError ''bird'')
   \<and> solve_analogy exact_library example_store ''cat'' ''bird'' ''dog'' = Inl (KeyError ''bird'')"
proof -
  have h1: "wf_store example_store" by (rule wf_example)
  have h2: "index (english_words example_store) ''bird'' = None"
    by (simp add: index_def example_store_def)
  have ev: "similarity_score exact_library example_store ''cat'' ''bird'' = Inl (KeyError ''bird'')"
    by (simp add: similarity_score_def lookup_row_def index_def example_store_def)
  from absent_word_raises [OF h1 h2, of exact_library "''cat''" _ _ "''cat''" "''dog''"]
  have "similarity_score exact_library example_store ''bird'' ''cat'' = Inl (KeyError ''bird'')
        \<and> solve_analogy exact_library example_store ''cat'' ''bird'' ''dog''
            = Inl (KeyError ''bird'')"
    by blast
  with h1 h2 ev show ?thesis by simp
qed

text \<open>
  Claim C10.  The index maps every word of the list to the row of its last occurrence:
  the greatest position at which the word stands, so the word list at that position
  gives the word back.  A word that is not in the list is not in the index.
\<close>

theorem index_last_occurrence:
  "(w \<in> set ws \<longrightarrow> (\<exists>i. index ws w = Some i \<and> i < length ws \<and> ws ! i = w
        \<and> (\<forall>j<length ws. ws ! j = w \<longrightarrow> j \<le> i)))
   \<and> (w \<notin> set ws \<longrightarrow> index ws w = None)"
  by (rule index_props)

text \<open>A list in which cat stands at positions 0 and 2.\<close>

theorem index_last_occurrence_witness:
  "''cat'' \<in> set [''cat'', ''dog'', ''cat'']
   \<and> index [''cat'', ''dog'', ''cat''] ''cat'' = Some 2
   \<and> (\<exists>i. index [''cat'', ''dog'', ''cat''] ''cat'' = Some i
          \<and> [''cat'', ''dog'', ''cat''] ! i = ''cat'')"
proof -
  have h: "''cat'' \<in> set [''cat'', ''dog'', ''cat'']" by simp
  have ev: "index [''cat'', ''dog'', ''cat''] ''cat'' = Some 2" by (simp add: index_def)
  from index_last_occurrence [of "''cat''" "[''cat'', ''dog'', ''cat'']"] h
  have "\<exists>i. index [''cat'', ''dog'', ''cat''] ''cat'' = Some i
          \<and> [''cat'', ''dog'', ''cat''] ! i = ''cat''"
    by blast
  with h ev show ?thesis by simp
qed

end
